theory Spec2Isabelle
  imports Complex_Main "HOL-Library.Sublist" "HOL-Library.List_Lexorder" "HOL-Library.Char_ord"
begin

section \<open>Data model: pandas tables as the dashboard uses them\<close>

text \<open>
  A cell of a table is a number, a text or the missing value. A numeric cell (int64 or
  float64 in pandas) is modelled by its value; rounding and 64-bit overflow are not
  modelled, and no theorem below depends on the value of a sum beyond the concrete
  examples, which use numbers that binary floating point represents exactly.
\<close>

datatype cell = Num real | Str string | NaN

text \<open>
  Python exceptions. \<open>BaseException\<close> stands for the exceptions that do not derive from
  \<open>Exception\<close> (KeyboardInterrupt, SystemExit): \<open>except Exception\<close> lets them through.
  The texts of the TypeErrors that pandas raises are abbreviated.
\<close>

datatype exn = KeyError string | TypeError string | Exception string | BaseException string

fun is_Exception :: "exn \<Rightarrow> bool" where
  "is_Exception (BaseException m) = False"
| "is_Exception e = True"

fun str_exn :: "exn \<Rightarrow> string" where
  "str_exn (KeyError k) = [CHR 0x27] @ k @ [CHR 0x27]"
| "str_exn (TypeError m) = m"
| "str_exn (Exception m) = m"
| "str_exn (BaseException m) = m"

text \<open>
  A DataFrame: the column labels in order, and the rows in order, each row with its index
  label and its cells in the order of the columns.
\<close>

record frame =
  columns :: "string list"
  rows :: "(nat \<times> cell list) list"

definition DataFrame :: frame where
  "DataFrame = \<lparr>columns = [], rows = []\<rparr>"

text \<open>\<open>df.empty\<close>: true when either axis has length zero.\<close>

definition df_empty :: "frame \<Rightarrow> bool" where
  "df_empty df = (rows df = [] \<or> columns df = [])"

text \<open>
  The tables of the provider: no label names two columns, and every row has one cell for
  each column. pandas also admits a label that names several columns; there \<open>df[c]\<close> is a
  table and not a series, and what lines 21, 50, 58 and 62 do with it is outside this
  model. Every statement below about the cells or the columns of a table is made for
  tables with this property.
\<close>

definition wf_frame :: "frame \<Rightarrow> bool" where
  "wf_frame df = (distinct (columns df) \<and> list_all (\<lambda>r. length (snd r) = length (columns df)) (rows df))"

fun index_of :: "string list \<Rightarrow> string \<Rightarrow> nat option" where
  "index_of [] c = None"
| "index_of (x # xs) c = (if x = c then Some 0 else map_option Suc (index_of xs c))"

fun sequence_err :: "(exn + 'a) list \<Rightarrow> exn + 'a list" where
  "sequence_err [] = Inr []"
| "sequence_err (x # xs) =
     (case x of Inl e \<Rightarrow> Inl e
      | Inr v \<Rightarrow> (case sequence_err xs of Inl e \<Rightarrow> Inl e | Inr vs \<Rightarrow> Inr (v # vs)))"

text \<open>
  \<open>df[c]\<close> for one label that names one column: the column as a list, KeyError when the
  label is absent.
\<close>

definition getitem_col :: "frame \<Rightarrow> string \<Rightarrow> exn + cell list" where
  "getitem_col df c =
     (case index_of (columns df) c of
        None \<Rightarrow> Inl (KeyError c)
      | Some i \<Rightarrow> Inr (map (\<lambda>r. snd r ! i) (rows df)))"

text \<open>
  \<open>df[c] = s\<close>: every column that carries the label is overwritten where it stands; a new
  label is appended as the last column. The series comes from the same table, so it is
  aligned row by row.
\<close>

definition setitem_col :: "frame \<Rightarrow> string \<Rightarrow> cell list \<Rightarrow> frame" where
  "setitem_col df c s =
     (if c \<in> set (columns df) then
        df\<lparr>rows := map2 (\<lambda>r v. (fst r, map2 (\<lambda>l x. if l = c then v else x) (columns df) (snd r)))
                       (rows df) s\<rparr>
      else df\<lparr>columns := columns df @ [c],
               rows := map2 (\<lambda>r v. (fst r, snd r @ [v])) (rows df) s\<rparr>)"

text \<open>
  \<open>df[[c1, ..., cn]]\<close>: a new table; for each label of the list in turn, every column that
  carries it. KeyError when a label is absent.
\<close>

definition getitem_cols :: "frame \<Rightarrow> string list \<Rightarrow> exn + frame" where
  "getitem_cols df cs =
     (case filter (\<lambda>c. c \<notin> set (columns df)) cs of
        c # missing \<Rightarrow> Inl (KeyError c)
      | [] \<Rightarrow>
          Inr \<lparr>columns = concat (map (\<lambda>c. filter (\<lambda>l. l = c) (columns df)) cs),
               rows = map (\<lambda>r. (fst r, concat (map (\<lambda>c. map snd (filter (\<lambda>p. fst p = c)
                                                   (zip (columns df) (snd r)))) cs)))
                          (rows df)\<rparr>)"

text \<open>\<open>df[mask]\<close> for a boolean series: a new table of the rows whose mask is true.\<close>

definition getitem_mask :: "frame \<Rightarrow> bool list \<Rightarrow> frame" where
  "getitem_mask df keep = df\<lparr>rows := map fst (filter snd (zip (rows df) keep))\<rparr>"

text \<open>Element-wise \<open>+\<close> of two series; a missing value on either side gives a missing value.\<close>

fun add_cell :: "cell \<Rightarrow> cell \<Rightarrow> exn + cell" where
  "add_cell NaN y = Inr NaN"
| "add_cell x NaN = Inr NaN"
| "add_cell (Num a) (Num b) = Inr (Num (a + b))"
| "add_cell (Str a) (Str b) = Inr (Str (a @ b))"
| "add_cell x y = Inl (TypeError ''unsupported operand type(s) for +'')"

definition add_series :: "cell list \<Rightarrow> cell list \<Rightarrow> exn + cell list" where
  "add_series xs ys = sequence_err (map2 add_cell xs ys)"

text \<open>Element-wise \<open>>= min_pa\<close> against a Python int; a missing value compares false.\<close>

fun ge_cell :: "cell \<Rightarrow> int \<Rightarrow> exn + bool" where
  "ge_cell (Num x) m = Inr (of_int m \<le> x)"
| "ge_cell NaN m = Inr False"
| "ge_cell (Str s) m = Inl (TypeError ''>= not supported between str and int'')"

text \<open>Element-wise \<open>==\<close>; a missing value equals nothing.\<close>

fun eq_cell :: "cell \<Rightarrow> cell \<Rightarrow> bool" where
  "eq_cell NaN y = False"
| "eq_cell x NaN = False"
| "eq_cell x y = (x = y)"

section \<open>The program\<close>

text \<open>
  Tables are Python objects: the store holds them, a variable holds an address.
  An operation that builds a table allocates it at the end of the store; item assignment
  changes the table at its address.
\<close>

type_synonym store = "frame list"

subsection \<open>\<open>fetch_data\<close> (lines 10-16)\<close>

definition digit_char :: "nat \<Rightarrow> char" where
  "digit_char d = ''0123456789'' ! d"

function str_nat :: "nat \<Rightarrow> string" where
  "str_nat n = (if n < 10 then [digit_char n] else str_nat (n div 10) @ [digit_char (n mod 10)])"
  by pat_completeness auto
termination
  by (relation "measure id") auto

definition str_int :: "int \<Rightarrow> string" where
  "str_int i = (if i < 0 then CHR ''-'' # str_nat (nat (- i)) else str_nat (nat i))"

text \<open>
  The provider \<open>batting_stats(year, qual=10)\<close> is external: a parameter that returns a
  table or raises. \<open>st.error\<close> is the only effect: the messages shown come back in a list.
  The cache decorator is outside the model.
\<close>

definition fetch_data :: "(int \<Rightarrow> exn + frame) \<Rightarrow> int \<Rightarrow> string list \<times> (exn + frame)" where
  "fetch_data batting_stats year =
     (case batting_stats year of
        Inr t \<Rightarrow> ([], Inr t)
      | Inl e \<Rightarrow>
          if is_Exception e
          then ([''Error fetching data for '' @ str_int year @ '': '' @ str_exn e], Inr DataFrame)
          else ([], Inl e))"

subsection \<open>\<open>clean_data\<close> (lines 19-26)\<close>

definition cols :: "string list" where
  "cols = [''Name'', ''WAR'', ''OPS'', ''HR'', ''AVG'', ''Team'']"

definition clean_data :: "store \<Rightarrow> nat \<Rightarrow> exn + (store \<times> nat)" where
  "clean_data st df =
     (if \<not> df_empty (st ! df) then
        (case getitem_col (st ! df) ''OBP'' of
           Inl e \<Rightarrow> Inl e
         | Inr obp \<Rightarrow>
        (case getitem_col (st ! df) ''SLG'' of
           Inl e \<Rightarrow> Inl e
         | Inr slg \<Rightarrow>
        (case add_series obp slg of
           Inl e \<Rightarrow> Inl e
         | Inr ops \<Rightarrow>
             let st1 = st[df := setitem_col (st ! df) ''OPS'' ops];
                 available_cols = filter (\<lambda>c. c \<in> set (columns (st1 ! df))) cols
             in (case getitem_cols (st1 ! df) available_cols of
                   Inl e \<Rightarrow> Inl e
                 | Inr out \<Rightarrow> Inr (st1 @ [out], length st1)))))
      else Inr (st, df))"

subsection \<open>The module-level pipeline (lines 48-62)\<close>

text \<open>Line 50, \<open>df[df["PA"] >= min_pa]\<close>.\<close>

definition pa_filter :: "store \<Rightarrow> nat \<Rightarrow> int \<Rightarrow> exn + (store \<times> nat)" where
  "pa_filter st df min_pa =
     (case getitem_col (st ! df) ''PA'' of
        Inl e \<Rightarrow> Inl e
      | Inr pa \<Rightarrow>
     (case sequence_err (map (\<lambda>v. ge_cell v min_pa) pa) of
        Inl e \<Rightarrow> Inl e
      | Inr keep \<Rightarrow> Inr (st @ [getitem_mask (st ! df) keep], length st)))"

text \<open>Lines 49-51: the PA filter and \<open>clean_data\<close>, both skipped on an empty table.\<close>

definition derive_stage :: "store \<Rightarrow> nat \<Rightarrow> int \<Rightarrow> exn + (store \<times> nat)" where
  "derive_stage st df min_pa =
     (if \<not> df_empty (st ! df) then
        (case pa_filter st df min_pa of
           Inl e \<Rightarrow> Inl e
         | Inr (st1, df1) \<Rightarrow> clean_data st1 df1)
      else Inr (st, df))"

text \<open>Line 58, \<open>["All"] + sorted(df["Team"].dropna().unique().tolist())\<close>.\<close>

definition dropna :: "cell list \<Rightarrow> cell list" where
  "dropna s = filter (\<lambda>v. v \<noteq> NaN) s"

fun unique_acc :: "cell list \<Rightarrow> cell list \<Rightarrow> cell list" where
  "unique_acc seen [] = []"
| "unique_acc seen (x # xs) =
     (if x \<in> set seen then unique_acc seen xs else x # unique_acc (x # seen) xs)"

definition unique :: "cell list \<Rightarrow> cell list" where
  "unique s = unique_acc [] s"

fun is_Str :: "cell \<Rightarrow> bool" where
  "is_Str (Str s) = True"
| "is_Str v = False"

fun is_Num :: "cell \<Rightarrow> bool" where
  "is_Num (Num x) = True"
| "is_Num v = False"

fun str_of :: "cell \<Rightarrow> string" where
  "str_of (Str s) = s"
| "str_of v = []"

fun num_of :: "cell \<Rightarrow> real" where
  "num_of (Num x) = x"
| "num_of v = 0"

text \<open>
  \<open>sorted\<close> on a list without missing values (its only use follows \<open>dropna\<close>): texts sort
  among themselves, numbers among themselves, a mixed list raises TypeError.
\<close>

definition py_sorted :: "cell list \<Rightarrow> exn + cell list" where
  "py_sorted vs =
     (if list_all is_Str vs then Inr (map Str (sort (map str_of vs)))
      else if list_all is_Num vs then Inr (map Num (sort (map num_of vs)))
      else Inl (TypeError ''< not supported between str and float''))"

definition team_options :: "frame \<Rightarrow> exn + cell list" where
  "team_options df =
     (case getitem_col df ''Team'' of
        Inl e \<Rightarrow> Inl e
      | Inr team \<Rightarrow>
     (case py_sorted (unique (dropna team)) of
        Inl e \<Rightarrow> Inl e
      | Inr s \<Rightarrow> Inr (Str ''All'' # s)))"

text \<open>Lines 61-62, \<open>if selected_team != "All": df = df[df["Team"] == selected_team]\<close>.\<close>

definition team_filter :: "store \<Rightarrow> nat \<Rightarrow> cell \<Rightarrow> exn + (store \<times> nat)" where
  "team_filter st df selected_team =
     (if selected_team \<noteq> Str ''All'' then
        (case getitem_col (st ! df) ''Team'' of
           Inl e \<Rightarrow> Inl e
         | Inr team \<Rightarrow>
             Inr (st @ [getitem_mask (st ! df) (map (\<lambda>v. eq_cell v selected_team) team)], length st))
      else Inr (st, df))"

text \<open>
  Lines 54-62, up to the table that the presentation code reads. \<open>selectbox\<close> is the
  user's choice among the options offered.
\<close>

definition team_stage :: "store \<Rightarrow> nat \<Rightarrow> (cell list \<Rightarrow> cell) \<Rightarrow> exn + (store \<times> nat)" where
  "team_stage st df selectbox =
     (if \<not> df_empty (st ! df) then
        (case team_options (st ! df) of
           Inl e \<Rightarrow> Inl e
         | Inr teams \<Rightarrow> team_filter st df (selectbox teams))
      else Inr (st, df))"

text \<open>Lines 49-62.\<close>

definition stages :: "store \<Rightarrow> nat \<Rightarrow> int \<Rightarrow> (cell list \<Rightarrow> cell) \<Rightarrow> exn + (store \<times> nat)" where
  "stages st df min_pa selectbox =
     (case derive_stage st df min_pa of
        Inl e \<Rightarrow> Inl e
      | Inr (st2, df2) \<Rightarrow> team_stage st2 df2 selectbox)"

text \<open>Line 48 and the stages after it, from a store that holds the fetched table only.\<close>

definition dashboard ::
  "(int \<Rightarrow> exn + frame) \<Rightarrow> int \<Rightarrow> int \<Rightarrow> (cell list \<Rightarrow> cell) \<Rightarrow> string list \<times> (exn + (store \<times> nat))" where
  "dashboard batting_stats selected_year min_pa selectbox =
     (case fetch_data batting_stats selected_year of
        (msgs, Inl e) \<Rightarrow> (msgs, Inl e)
      | (msgs, Inr df) \<Rightarrow> (msgs, stages [df] 0 min_pa selectbox))"

section \<open>The operations as functions on tables\<close>

text \<open>
  The table an operation returns, read from the store it leaves. With it each operation
  of the program becomes a function from a table to a table or an exception, under the
  name the specification gives it.
\<close>

fun table_of :: "exn + (store \<times> nat) \<Rightarrow> exn + frame" where
  "table_of (Inl e) = Inl e"
| "table_of (Inr (st, df)) = Inr (st ! df)"

definition deriveAndProject :: "frame \<Rightarrow> exn + frame" where
  "deriveAndProject t = table_of (clean_data [t] 0)"

definition filterByPA :: "frame \<Rightarrow> int \<Rightarrow> exn + frame" where
  "filterByPA t min_pa = table_of (pa_filter [t] 0 min_pa)"

definition filterByTeam :: "frame \<Rightarrow> cell \<Rightarrow> exn + frame" where
  "filterByTeam t team = table_of (team_filter [t] 0 team)"

fun and_then :: "exn + 'a \<Rightarrow> ('a \<Rightarrow> exn + 'b) \<Rightarrow> exn + 'b" where
  "and_then (Inl e) f = Inl e"
| "and_then (Inr x) f = f x"

text \<open>
  The order of the stages as the specification words it: derivation and projection first,
  then the PA filter, then the team filter.
\<close>

definition spec_order :: "frame \<Rightarrow> int \<Rightarrow> cell \<Rightarrow> exn + frame" where
  "spec_order fetched min_pa team =
     and_then (deriveAndProject fetched) (\<lambda>t1.
     and_then (filterByPA t1 min_pa) (\<lambda>t2. filterByTeam t2 team))"

text \<open>
  The order of lines 49-62: nothing on an empty table; else the PA filter, then
  \<open>clean_data\<close>, then, on a table that is not empty, the team filter for the team chosen
  among the options of that table.
\<close>

definition code_order :: "frame \<Rightarrow> int \<Rightarrow> (cell list \<Rightarrow> cell) \<Rightarrow> exn + frame" where
  "code_order fetched min_pa selectbox =
     (if df_empty fetched then Inr fetched
      else
        and_then (filterByPA fetched min_pa) (\<lambda>t1.
        and_then (deriveAndProject t1) (\<lambda>t2.
          if df_empty t2 then Inr t2
          else and_then (team_options t2) (\<lambda>teams. filterByTeam t2 (selectbox teams)))))"

text \<open>A cell holds a number that is at least \<open>m\<close>.\<close>

definition at_least :: "int \<Rightarrow> cell \<Rightarrow> bool" where
  "at_least m v = (case v of Num x \<Rightarrow> of_int m \<le> x | Str s \<Rightarrow> False | NaN \<Rightarrow> False)"

section \<open>Example inputs\<close>

text \<open>The two rows of the specification's scenario, with rates that are exact in binary.\<close>

definition season :: frame where
  "season = \<lparr>columns = [''Name'', ''Team'', ''PA'', ''OBP'', ''SLG'', ''WAR'', ''HR'', ''AVG''],
     rows = [(0, [Str ''A'', Str ''NYY'', Num 150, Num 0.25, Num 0.5, Num 3, Num 10, Num 0.25]),
             (1, [Str ''B'', Str ''BOS'', Num 50, Num 0.375, Num 0.5, Num 2, Num 5, Num 0.25])]\<rparr>"

text \<open>An old season for which the provider has no on-base percentage.\<close>

definition old_season :: frame where
  "old_season = \<lparr>columns = [''Name'', ''Team'', ''PA'', ''SLG'', ''WAR'', ''HR'', ''AVG''],
     rows = [(0, [Str ''A'', Str ''NYY'', Num 150, Num 0.5, Num 3, Num 10, Num 0.25])]\<rparr>"

text \<open>A season for which the provider has no team.\<close>

definition season_noteam :: frame where
  "season_noteam = \<lparr>columns = [''Name'', ''PA'', ''OBP'', ''SLG'', ''WAR'', ''HR'', ''AVG''],
     rows = [(0, [Str ''A'', Num 150, Num 0.25, Num 0.5, Num 3, Num 10, Num 0.25])]\<rparr>"

text \<open>A table with its columns and no row.\<close>

definition no_rows :: frame where
  "no_rows = \<lparr>columns = [''Name'', ''Team'', ''PA'', ''OBP'', ''SLG'', ''WAR'', ''HR'', ''AVG''],
     rows = []\<rparr>"

text \<open>The user keeps the first option of the selector.\<close>

definition first_option :: "cell list \<Rightarrow> cell" where
  "first_option options = (case options of [] \<Rightarrow> NaN | x # xs \<Rightarrow> x)"

text \<open>A provider that is down.\<close>

definition provider_down :: "int \<Rightarrow> exn + frame" where
  "provider_down year = Inl (Exception ''timeout'')"

section \<open>Facts about the table operations\<close>

lemma index_of_None: "index_of xs c = None \<longleftrightarrow> c \<notin> set xs"
  by (induction xs) auto

lemma index_of_Some: "index_of xs c = Some i \<Longrightarrow> i < length xs \<and> xs ! i = c"
  by (induction xs arbitrary: i) (auto split: if_splits)

lemma index_of_mem: "c \<in> set xs \<Longrightarrow> \<exists>i. index_of xs c = Some i"
  using index_of_None [of xs c] by (cases "index_of xs c") auto

lemma getitem_col_Some:
  "index_of (columns df) c = Some i \<Longrightarrow> getitem_col df c = Inr (map (\<lambda>r. snd r ! i) (rows df))"
  by (simp add: getitem_col_def)

lemma getitem_col_missing: "c \<notin> set (columns df) \<Longrightarrow> getitem_col df c = Inl (KeyError c)"
  using index_of_None [of "columns df" c] by (simp add: getitem_col_def)

lemma keep_filter: "map fst (filter snd (zip xs (map f xs))) = filter f xs"
  by (induction xs) auto

lemma ge_cell_at_least: "\<not> is_Str v \<Longrightarrow> ge_cell v m = Inr (at_least m v)"
  by (cases v) (simp_all add: at_least_def)

lemma sequence_err_ge:
  "list_all (\<lambda>v. \<not> is_Str v) vs \<Longrightarrow>
   sequence_err (map (\<lambda>v. ge_cell v m) vs) = Inr (map (at_least m) vs)"
  by (induction vs) (simp_all add: ge_cell_at_least)

lemma pa_filter_result:
  assumes "index_of (columns (st ! df)) ''PA'' = Some i"
    and "list_all (\<lambda>r. \<not> is_Str (snd r ! i)) (rows (st ! df))"
  shows "pa_filter st df m =
    Inr (st @ [(st ! df)\<lparr>rows := filter (\<lambda>r. at_least m (snd r ! i)) (rows (st ! df))\<rparr>], length st)"
proof -
  have "list_all (\<lambda>v. \<not> is_Str v) (map (\<lambda>r. snd r ! i) (rows (st ! df)))"
    using assms(2) by (simp add: list_all_iff)
  then have "sequence_err (map (\<lambda>v. ge_cell v m) (map (\<lambda>r. snd r ! i) (rows (st ! df)))) =
      Inr (map (at_least m) (map (\<lambda>r. snd r ! i) (rows (st ! df))))"
    by (rule sequence_err_ge)
  moreover have "map (at_least m) (map (\<lambda>r. snd r ! i) (rows (st ! df))) =
      map (\<lambda>r. at_least m (snd r ! i)) (rows (st ! df))"
    by simp
  ultimately show ?thesis
    using assms(1) by (simp add: pa_filter_def getitem_col_Some getitem_mask_def keep_filter del: map_map)
qed

lemma eq_cell_eq: "t \<noteq> NaN \<Longrightarrow> eq_cell v t = (v = t)"
  by (cases v; cases t) simp_all

lemma team_filter_result:
  assumes "index_of (columns (st ! df)) ''Team'' = Some i"
    and "team \<noteq> Str ''All''" and "team \<noteq> NaN"
  shows "team_filter st df team =
    Inr (st @ [(st ! df)\<lparr>rows := filter (\<lambda>r. snd r ! i = team) (rows (st ! df))\<rparr>], length st)"
proof -
  have "map (\<lambda>v. eq_cell v team) (map (\<lambda>r. snd r ! i) (rows (st ! df))) =
      map (\<lambda>r. snd r ! i = team) (rows (st ! df))"
    using assms(3) by (simp add: eq_cell_eq)
  then show ?thesis
    using assms(1,2)
    by (simp add: team_filter_def getitem_col_Some getitem_mask_def keep_filter del: map_map)
qed

lemma unique_acc_set: "set (unique_acc seen xs) = set xs - set seen"
  by (induction xs arbitrary: seen) auto

lemma unique_acc_distinct: "distinct (unique_acc seen xs)"
  by (induction xs arbitrary: seen) (auto simp: unique_acc_set)

lemma unique_set: "set (unique xs) = set xs"
  by (simp add: unique_def unique_acc_set)

lemma unique_distinct: "distinct (unique xs)"
  by (simp add: unique_def unique_acc_distinct)

lemma str_of_inj: "list_all is_Str vs \<Longrightarrow> inj_on str_of (set vs)"
proof (rule inj_onI)
  fix x y assume a: "list_all is_Str vs" "x \<in> set vs" "y \<in> set vs" "str_of x = str_of y"
  then have "is_Str x" "is_Str y" by (auto simp: list_all_iff)
  with a(4) show "x = y" by (cases x; cases y) simp_all
qed

lemma Str_in_values:
  "Str t \<in> set (unique (dropna (map (\<lambda>r. snd r ! i) rs))) \<longleftrightarrow> (\<exists>r \<in> set rs. snd r ! i = Str t)"
  by (force simp: unique_set dropna_def)

lemma team_options_result:
  assumes "index_of (columns df) ''Team'' = Some i"
    and "list_all (\<lambda>r. is_Str (snd r ! i) \<or> snd r ! i = NaN) (rows df)"
  shows "team_options df =
    Inr (Str ''All'' # map Str (sort (map str_of (unique (dropna (map (\<lambda>r. snd r ! i) (rows df)))))))"
proof -
  have "list_all is_Str (unique (dropna (map (\<lambda>r. snd r ! i) (rows df))))"
    using assms(2) by (auto simp: list_all_iff unique_set dropna_def)
  then show ?thesis
    using assms(1) by (simp add: team_options_def getitem_col_Some py_sorted_def del: map_map)
qed

lemma columns_setitem_col:
  "columns (setitem_col d c s) = (if c \<in> set (columns d) then columns d else columns d @ [c])"
  by (simp add: setitem_col_def)

lemma getitem_cols_present:
  "getitem_cols d cs = Inr out \<Longrightarrow> set cs \<subseteq> set (columns d)"
  by (auto simp: getitem_cols_def filter_empty_conv split: list.splits)

lemma getitem_cols_set_columns:
  assumes "getitem_cols d cs = Inr out"
  shows "set (columns out) = set cs"
proof -
  have "columns out = concat (map (\<lambda>c. filter (\<lambda>l. l = c) (columns d)) cs)"
    using assms by (auto simp: getitem_cols_def split: list.splits)
  then show ?thesis
    using getitem_cols_present [OF assms] by auto
qed

lemma getitem_cols_total: "set cs \<subseteq> set (columns d) \<Longrightarrow> \<exists>out. getitem_cols d cs = Inr out"
proof -
  assume "set cs \<subseteq> set (columns d)"
  then have "filter (\<lambda>c. c \<notin> set (columns d)) cs = []"
    by (auto simp: filter_empty_conv)
  then show ?thesis
    by (simp add: getitem_cols_def)
qed

lemma add_cell_ok: "\<not> is_Str x \<Longrightarrow> \<not> is_Str y \<Longrightarrow> \<exists>z. add_cell x y = Inr z"
  by (cases x; cases y) simp_all

lemma add_series_ok:
  "list_all (\<lambda>r. \<not> is_Str (f r) \<and> \<not> is_Str (g r)) rs \<Longrightarrow>
   \<exists>ops. add_series (map f rs) (map g rs) = Inr ops"
proof (induction rs)
  case Nil
  then show ?case by (simp add: add_series_def)
next
  case (Cons r rs)
  then obtain ops where "add_series (map f rs) (map g rs) = Inr ops" by auto
  moreover obtain z where "add_cell (f r) (g r) = Inr z"
    using Cons.prems add_cell_ok [of "f r" "g r"] by auto
  ultimately show ?case by (simp add: add_series_def)
qed

lemma clean_data_Inr:
  assumes "clean_data st df = Inr (st', r)" and "\<not> df_empty (st ! df)"
  shows "\<exists>obp slg ops out.
           getitem_col (st ! df) ''OBP'' = Inr obp \<and> getitem_col (st ! df) ''SLG'' = Inr slg
         \<and> add_series obp slg = Inr ops
         \<and> getitem_cols (st[df := setitem_col (st ! df) ''OPS'' ops] ! df)
             (filter (\<lambda>c. c \<in> set (columns (st[df := setitem_col (st ! df) ''OPS'' ops] ! df))) cols) = Inr out
         \<and> st' = st[df := setitem_col (st ! df) ''OPS'' ops] @ [out] \<and> r = length st"
  using assms by (auto simp: clean_data_def Let_def split: sum.splits)

lemma clean_data_total:
  assumes "df < length st"
    and "getitem_col (st ! df) ''OBP'' = Inr obp" and "getitem_col (st ! df) ''SLG'' = Inr slg"
    and "add_series obp slg = Inr ops"
  shows "\<exists>st' r. clean_data st df = Inr (st', r)"
proof (cases "df_empty (st ! df)")
  case True
  then show ?thesis by (simp add: clean_data_def)
next
  case False
  let ?d = "setitem_col (st ! df) ''OPS'' ops"
  have "set (filter (\<lambda>c. c \<in> set (columns ?d)) cols) \<subseteq> set (columns ?d)" by auto
  then obtain out where "getitem_cols ?d (filter (\<lambda>c. c \<in> set (columns ?d)) cols) = Inr out"
    using getitem_cols_total by blast
  then show ?thesis
    using False assms by (simp add: clean_data_def Let_def)
qed

section \<open>The operations on the store and on tables\<close>

lemma pa_filter_Inr:
  "pa_filter st df m = Inr (st', r) \<Longrightarrow>
   \<exists>t. st' = st @ [t] \<and> r = length st \<and> filterByPA (st ! df) m = Inr t"
  by (auto simp: pa_filter_def filterByPA_def split: sum.splits)

lemma pa_filter_Inl: "pa_filter st df m = Inl e \<Longrightarrow> filterByPA (st ! df) m = Inl e"
  by (auto simp: pa_filter_def filterByPA_def split: sum.splits)

lemma table_of_clean_data:
  "df < length st \<Longrightarrow> table_of (clean_data st df) = deriveAndProject (st ! df)"
  by (auto simp: clean_data_def deriveAndProject_def Let_def nth_append split: sum.splits)

lemma table_of_team_filter: "table_of (team_filter st df t) = filterByTeam (st ! df) t"
  by (auto simp: team_filter_def filterByTeam_def split: sum.splits)

lemma table_of_team_stage:
  "table_of (team_stage st df selectbox) =
     (if df_empty (st ! df) then Inr (st ! df)
      else and_then (team_options (st ! df)) (\<lambda>teams. filterByTeam (st ! df) (selectbox teams)))"
  by (auto simp: team_stage_def table_of_team_filter split: sum.splits)

lemma pa_filter_store:
  "pa_filter st df m = Inr (st', r) \<Longrightarrow>
   take (length st) st' = st \<and> r = length st \<and> length st' = Suc (length st)"
  by (auto simp: pa_filter_def split: sum.splits)

lemma team_filter_store:
  "team_filter st df t = Inr (st', r) \<Longrightarrow>
   take (length st) st' = st \<and> r = (if t = Str ''All'' then df else length st)"
  by (auto simp: team_filter_def split: sum.splits if_splits)

lemma team_stage_store:
  "team_stage st df selectbox = Inr (st', r) \<Longrightarrow> take (length st) st' = st"
  by (auto simp: team_stage_def split: sum.splits if_splits dest: team_filter_store)

lemma clean_data_store:
  "clean_data st df = Inr (st', r) \<Longrightarrow> df < length st \<Longrightarrow> take df st' = take df st"
  by (auto simp: clean_data_def Let_def split: sum.splits if_splits)

lemma derive_stage_store:
  assumes "derive_stage st df m = Inr (st', r)"
  shows "take (length st) st' = st"
proof (cases "df_empty (st ! df)")
  case True
  then show ?thesis using assms by (simp add: derive_stage_def)
next
  case False
  then obtain st1 r1 where p: "pa_filter st df m = Inr (st1, r1)" and c: "clean_data st1 r1 = Inr (st', r)"
    using assms by (auto simp: derive_stage_def split: sum.splits)
  from pa_filter_store [OF p] have 1: "take (length st) st1 = st" "r1 = length st"
    and "length st1 = Suc (length st)" by simp_all
  then have "r1 < length st1" by simp
  from clean_data_store [OF c this] have "take r1 st' = take r1 st1" .
  then show ?thesis using 1 by simp
qed

lemma stages_store:
  assumes "stages st df m selectbox = Inr (st', r)"
  shows "take (length st) st' = st"
proof -
  obtain st2 r2 where d: "derive_stage st df m = Inr (st2, r2)" and t: "team_stage st2 r2 selectbox = Inr (st', r)"
    using assms by (auto simp: stages_def split: sum.splits)
  have 1: "take (length st) st2 = st" by (rule derive_stage_store [OF d])
  have 2: "take (length st2) st' = st2" by (rule team_stage_store [OF t])
  have "length st \<le> length st2"
    using arg_cong [OF 1, of length] by simp
  then have "take (length st) st' = take (length st) (take (length st2) st')"
    by (simp add: min_def)
  then show ?thesis using 1 2 by simp
qed

section \<open>What the unguarded read of OBP and SLG does\<close>

text \<open>
  On every table with rows and columns that lacks OBP or SLG, \<open>clean_data\<close> raises KeyError;
  the table it returns never has an OBP column, so a second call on a result always raises.
\<close>

lemma clean_data_missing_column:
  assumes "\<not> df_empty (st ! df)"
  shows "''OBP'' \<notin> set (columns (st ! df)) \<Longrightarrow> clean_data st df = Inl (KeyError ''OBP'')"
    and "''OBP'' \<in> set (columns (st ! df)) \<Longrightarrow> ''SLG'' \<notin> set (columns (st ! df)) \<Longrightarrow>
         clean_data st df = Inl (KeyError ''SLG'')"
proof -
  show "clean_data st df = Inl (KeyError ''OBP'')" if "''OBP'' \<notin> set (columns (st ! df))"
    using assms that by (simp add: clean_data_def getitem_col_missing)
  show "clean_data st df = Inl (KeyError ''SLG'')"
    if a: "''OBP'' \<in> set (columns (st ! df))" and b: "''SLG'' \<notin> set (columns (st ! df))"
  proof -
    obtain i where "index_of (columns (st ! df)) ''OBP'' = Some i"
      using index_of_mem [OF a] by blast
    then show ?thesis
      using assms b by (simp add: clean_data_def getitem_col_Some getitem_col_missing)
  qed
qed

lemma sequence_err_length: "sequence_err xs = Inr ys \<Longrightarrow> length ys = length xs"
  by (induction xs arbitrary: ys) (auto split: sum.splits)

lemma getitem_col_length: "getitem_col d c = Inr s \<Longrightarrow> length s = length (rows d)"
  by (auto simp: getitem_col_def split: option.splits)

lemma rows_setitem_col_length:
  "length (rows (setitem_col d c s)) = min (length (rows d)) (length s)"
  by (simp add: setitem_col_def)

lemma getitem_cols_rows_length: "getitem_cols d cs = Inr out \<Longrightarrow> length (rows out) = length (rows d)"
  by (auto simp: getitem_cols_def split: list.splits)

lemma clean_data_second_call:
  assumes "clean_data st df = Inr (st', r)" and "\<not> df_empty (st ! df)" and "df < length st"
  shows "clean_data st' r = Inl (KeyError ''OBP'')"
proof -
  from clean_data_Inr [OF assms(1,2)] obtain obp slg ops out where
    g: "getitem_col (st ! df) ''OBP'' = Inr obp" "getitem_col (st ! df) ''SLG'' = Inr slg"
    and a: "add_series obp slg = Inr ops"
    and o: "getitem_cols (st[df := setitem_col (st ! df) ''OPS'' ops] ! df)
             (filter (\<lambda>c. c \<in> set (columns (st[df := setitem_col (st ! df) ''OPS'' ops] ! df))) cols) = Inr out"
    and s: "st' = st[df := setitem_col (st ! df) ''OPS'' ops] @ [out]" and r: "r = length st"
    by blast
  let ?d = "setitem_col (st ! df) ''OPS'' ops"
  have out: "st' ! r = out" using s r by (simp add: nth_append)
  have o': "getitem_cols ?d (filter (\<lambda>c. c \<in> set (columns ?d)) cols) = Inr out"
    using o assms(3) by simp
  have "length ops = length (rows (st ! df))"
    using a g by (simp add: add_series_def sequence_err_length getitem_col_length)
  then have "length (rows out) = length (rows (st ! df))"
    using getitem_cols_rows_length [OF o'] by (simp add: rows_setitem_col_length)
  then have 1: "rows out \<noteq> []"
    using assms(2) by (auto simp: df_empty_def)
  have c: "set (columns out) = set (filter (\<lambda>c. c \<in> set (columns ?d)) cols)"
    by (rule getitem_cols_set_columns [OF o'])
  have "''OPS'' \<in> set (columns out)"
    by (simp add: c cols_def columns_setitem_col)
  then have 2: "columns out \<noteq> []" by auto
  have 3: "''OBP'' \<notin> set (columns out)"
    by (simp add: c cols_def)
  have "\<not> df_empty (st' ! r)"
    using 1 2 out by (simp add: df_empty_def)
  then show ?thesis
    using 3 out by (simp add: clean_data_def getitem_col_missing)
qed

section \<open>Reading columns after assignment and selection\<close>

lemma filter_label: "distinct ls \<Longrightarrow> c \<in> set ls \<Longrightarrow> filter (\<lambda>l. l = c) ls = [c]"
  by (induction ls) (auto simp: filter_empty_conv)

lemma concat_labels:
  "distinct ls \<Longrightarrow> set cs \<subseteq> set ls \<Longrightarrow> concat (map (\<lambda>c. filter (\<lambda>l. l = c) ls) cs) = cs"
  by (induction cs) (simp_all add: filter_label)

lemma select_none: "c \<notin> set ls \<Longrightarrow> filter (\<lambda>p. fst p = c) (zip ls xs) = []"
  by (auto simp: filter_empty_conv dest: set_zip_leftD)

lemma select_label:
  "distinct ls \<Longrightarrow> length xs = length ls \<Longrightarrow> index_of ls c = Some i \<Longrightarrow>
   map snd (filter (\<lambda>p. fst p = c) (zip ls xs)) = [xs ! i]"
proof (induction ls arbitrary: xs i)
  case Nil
  then show ?case by simp
next
  case (Cons l ls)
  then obtain x xs' where xs: "xs = x # xs'" by (cases xs) auto
  show ?case
  proof (cases "l = c")
    case True
    then have "c \<notin> set ls" using Cons.prems(1) by simp
    then show ?thesis
      using True Cons.prems(3) xs by (simp add: select_none)
  next
    case False
    then obtain j where j: "index_of ls c = Some j" "i = Suc j"
      using Cons.prems(3) by (cases "index_of ls c") auto
    then show ?thesis
      using False xs Cons.IH [of xs' j] Cons.prems(1,2) by simp
  qed
qed

lemma select_labels:
  assumes "distinct ls" and "length xs = length ls" and "set cs \<subseteq> set ls"
  shows "concat (map (\<lambda>c. map snd (filter (\<lambda>p. fst p = c) (zip ls xs))) cs) =
         map (\<lambda>c. xs ! the (index_of ls c)) cs"
  using assms(3)
proof (induction cs)
  case Nil
  then show ?case by simp
next
  case (Cons c cs)
  then obtain i where "index_of ls c = Some i"
    using index_of_mem [of c ls] by auto
  then show ?case
    using Cons select_label [OF assms(1,2)] by simp
qed

text \<open>On a table of the provider, the selection of columns reads one column per label.\<close>

lemma getitem_cols_wf:
  assumes "wf_frame d" and "set cs \<subseteq> set (columns d)"
  shows "getitem_cols d cs =
    Inr \<lparr>columns = cs,
         rows = map (\<lambda>r. (fst r, map (\<lambda>c. snd r ! the (index_of (columns d) c)) cs)) (rows d)\<rparr>"
proof -
  have 1: "filter (\<lambda>c. c \<notin> set (columns d)) cs = []"
    using assms(2) by (auto simp: filter_empty_conv)
  have 2: "concat (map (\<lambda>c. filter (\<lambda>l. l = c) (columns d)) cs) = cs"
    using assms by (simp add: concat_labels wf_frame_def)
  have 3: "map (\<lambda>r. (fst r, concat (map (\<lambda>c. map snd (filter (\<lambda>p. fst p = c)
                (zip (columns d) (snd r)))) cs))) (rows d) =
      map (\<lambda>r. (fst r, map (\<lambda>c. snd r ! the (index_of (columns d) c)) cs)) (rows d)"
  proof (rule map_cong [OF refl])
    fix r assume "r \<in> set (rows d)"
    then have "length (snd r) = length (columns d)"
      using assms(1) by (simp add: wf_frame_def list_all_iff)
    then show "(fst r, concat (map (\<lambda>c. map snd (filter (\<lambda>p. fst p = c)
                (zip (columns d) (snd r)))) cs)) =
        (fst r, map (\<lambda>c. snd r ! the (index_of (columns d) c)) cs)"
      using select_labels [of "columns d" "snd r" cs] assms by (simp add: wf_frame_def)
  qed
  show ?thesis
    by (simp add: getitem_cols_def 1 2 3)
qed

lemma getitem_cols_read:
  assumes "wf_frame d" and "set cs \<subseteq> set (columns d)" and "getitem_cols d cs = Inr out"
    and "c \<in> set cs"
  shows "getitem_col out c = getitem_col d c"
proof -
  have out: "out = \<lparr>columns = cs,
         rows = map (\<lambda>r. (fst r, map (\<lambda>c. snd r ! the (index_of (columns d) c)) cs)) (rows d)\<rparr>"
    using getitem_cols_wf [OF assms(1,2)] assms(3) by simp
  obtain p where p: "index_of cs c = Some p"
    using index_of_mem [OF assms(4)] by blast
  then have pp: "p < length cs" "cs ! p = c"
    using index_of_Some by auto
  obtain i where i: "index_of (columns d) c = Some i"
    using index_of_mem [of c "columns d"] assms(2,4) by auto
  have "getitem_col out c = Inr (map (\<lambda>r. snd r ! p) (rows out))"
    using p by (simp add: getitem_col_def out)
  also have "map (\<lambda>r. snd r ! p) (rows out) = map (\<lambda>r. snd r ! i) (rows d)"
    using pp i by (simp add: out)
  also have "Inr (map (\<lambda>r. snd r ! i) (rows d)) = getitem_col d c"
    using i by (simp add: getitem_col_def)
  finally show ?thesis .
qed

lemma getitem_cols_wf_frame:
  assumes "wf_frame d" and "set cs \<subseteq> set (columns d)" and "getitem_cols d cs = Inr out"
    and "distinct cs"
  shows "wf_frame out \<and> columns out = cs \<and> map fst (rows out) = map fst (rows d)"
  using getitem_cols_wf [OF assms(1,2)] assms(3,4)
  by (auto simp: wf_frame_def list_all_iff)

text \<open>Reading a column after the assignment of a series of the table's length.\<close>

lemma read_overwritten:
  assumes "length s = length rs" and "j < length ls" and "ls ! j = c'"
    and "list_all (\<lambda>r. length (snd r) = length ls) rs"
  shows "map (\<lambda>r. snd r ! j) (map2 (\<lambda>r v. (fst r, map2 (\<lambda>l x. if l = c then v else x) ls (snd r))) rs s) =
         (if c' = c then s else map (\<lambda>r. snd r ! j) rs)"
  using assms(1,4)
proof (induction s rs rule: list_induct2)
  case Nil
  then show ?case by simp
next
  case (Cons v s r rs)
  then show ?case using assms(2,3) by simp
qed

lemma read_appended_old:
  assumes "length s = length rs" and "list_all (\<lambda>r. length (snd r) = n) rs" and "j < n"
  shows "map (\<lambda>r. snd r ! j) (map2 (\<lambda>r v. (fst r, snd r @ [v])) rs s) = map (\<lambda>r. snd r ! j) rs"
  using assms(1,2)
proof (induction s rs rule: list_induct2)
  case Nil
  then show ?case by simp
next
  case (Cons v s r rs)
  then show ?case using assms(3) by (simp add: nth_append)
qed

lemma read_appended_new:
  assumes "length s = length rs" and "list_all (\<lambda>r. length (snd r) = n) rs"
  shows "map (\<lambda>r. snd r ! n) (map2 (\<lambda>r v. (fst r, snd r @ [v])) rs s) = s"
  using assms
proof (induction s rs rule: list_induct2)
  case Nil
  then show ?case by simp
next
  case (Cons v s r rs)
  then show ?case by (simp add: nth_append)
qed

lemma labels_map2:
  "length s = length rs \<Longrightarrow> map fst (map2 (\<lambda>r v. (fst r, f r v)) rs s) = map fst rs"
  by (induction s rs rule: list_induct2) simp_all

lemma index_of_append:
  "index_of (xs @ [c]) c' =
     (case index_of xs c' of Some j \<Rightarrow> Some j
      | None \<Rightarrow> if c' = c then Some (length xs) else None)"
  by (induction xs) (auto split: option.splits)

lemma setitem_col_read:
  assumes "wf_frame d" and "length s = length (rows d)"
  shows "getitem_col (setitem_col d c s) c' = (if c' = c then Inr s else getitem_col d c')"
proof (cases "c \<in> set (columns d)")
  case True
  show ?thesis
  proof (cases "index_of (columns d) c'")
    case None
    then have "c' \<noteq> c" using True index_of_None [of "columns d" c'] by auto
    then show ?thesis
      using None True by (simp add: getitem_col_def setitem_col_def)
  next
    case (Some j)
    then have j: "j < length (columns d)" "columns d ! j = c'"
      using index_of_Some by auto
    have "list_all (\<lambda>r. length (snd r) = length (columns d)) (rows d)"
      using assms(1) by (simp add: wf_frame_def)
    from read_overwritten [OF assms(2) j this, of c] show ?thesis
      using Some True by (simp add: getitem_col_def setitem_col_def)
  qed
next
  case False
  have a: "list_all (\<lambda>r. length (snd r) = length (columns d)) (rows d)"
    using assms(1) by (simp add: wf_frame_def)
  show ?thesis
  proof (cases "index_of (columns d) c'")
    case None
    then show ?thesis
      using False read_appended_new [OF assms(2) a]
      by (auto simp: getitem_col_def setitem_col_def index_of_append)
  next
    case (Some j)
    then have j: "j < length (columns d)" "columns d ! j = c'"
      using index_of_Some by auto
    then have "c' \<noteq> c" using False by auto
    then show ?thesis
      using False Some read_appended_old [OF assms(2) a j(1)]
      by (auto simp: getitem_col_def setitem_col_def index_of_append)
  qed
qed

lemma setitem_col_wf_frame:
  assumes "wf_frame d" and "length s = length (rows d)"
  shows "wf_frame (setitem_col d c s) \<and> map fst (rows (setitem_col d c s)) = map fst (rows d)"
proof -
  have a: "list_all (\<lambda>r. length (snd r) = length (columns d)) (rows d)"
    using assms(1) by (simp add: wf_frame_def)
  have 1: "map fst (map2 (\<lambda>r v. (fst r, f r v)) (rows d) s) = map fst (rows d)" for f :: "nat \<times> cell list \<Rightarrow> cell \<Rightarrow> cell list"
    using assms(2) by (rule labels_map2)
  have 2: "list_all (\<lambda>r. length (snd r) = n) (map2 (\<lambda>r v. (fst r, f r v)) (rows d) s)"
    if "\<And>r v. r \<in> set (rows d) \<Longrightarrow> length (f r v) = n" for f :: "nat \<times> cell list \<Rightarrow> cell \<Rightarrow> cell list" and n
    using that by (auto simp: list_all_iff dest: set_zip_leftD)
  show ?thesis
  proof (cases "c \<in> set (columns d)")
    case True
    have "list_all (\<lambda>r. length (snd r) = length (columns d))
        (map2 (\<lambda>r v. (fst r, map2 (\<lambda>l x. if l = c then v else x) (columns d) (snd r))) (rows d) s)"
      using a by (intro 2) (auto simp: list_all_iff)
    then show ?thesis
      using True assms(1) 1 by (simp add: setitem_col_def wf_frame_def)
  next
    case False
    have "list_all (\<lambda>r. length (snd r) = Suc (length (columns d)))
        (map2 (\<lambda>r v. (fst r, snd r @ [v])) (rows d) s)"
      using a by (intro 2) (auto simp: list_all_iff)
    then show ?thesis
      using False assms(1) 1 by (simp add: setitem_col_def wf_frame_def)
  qed
qed


lemma clean_data_effect:
  assumes "clean_data st df = Inr (st', r)" and "\<not> df_empty (st ! df)" and "df < length st"
  shows "\<exists>obp slg ops.
           getitem_col (st ! df) ''OBP'' = Inr obp \<and> getitem_col (st ! df) ''SLG'' = Inr slg
         \<and> add_series obp slg = Inr ops \<and> length ops = length (rows (st ! df))
         \<and> r = length st \<and> length st' = Suc (length st)
         \<and> st' ! df = setitem_col (st ! df) ''OPS'' ops
         \<and> (\<forall>a < length st. a \<noteq> df \<longrightarrow> st' ! a = st ! a)
         \<and> getitem_cols (st' ! df) (filter (\<lambda>c. c \<in> set (columns (st' ! df))) cols) = Inr (st' ! r)"
proof -
  from clean_data_Inr [OF assms(1,2)] obtain obp slg ops out where
    g: "getitem_col (st ! df) ''OBP'' = Inr obp" "getitem_col (st ! df) ''SLG'' = Inr slg"
    and a: "add_series obp slg = Inr ops"
    and o: "getitem_cols (st[df := setitem_col (st ! df) ''OPS'' ops] ! df)
             (filter (\<lambda>c. c \<in> set (columns (st[df := setitem_col (st ! df) ''OPS'' ops] ! df))) cols) = Inr out"
    and s: "st' = st[df := setitem_col (st ! df) ''OPS'' ops] @ [out]" and r: "r = length st"
    by blast
  have l: "length ops = length (rows (st ! df))"
    using a g by (simp add: add_series_def sequence_err_length getitem_col_length)
  have d: "st' ! df = setitem_col (st ! df) ''OPS'' ops"
    using s assms(3) by (simp add: nth_append)
  have out: "st' ! r = out"
    using s r by (simp add: nth_append)
  have other: "\<forall>a < length st. a \<noteq> df \<longrightarrow> st' ! a = st ! a"
    using s by (simp add: nth_append)
  have "getitem_cols (st' ! df) (filter (\<lambda>c. c \<in> set (columns (st' ! df))) cols) = Inr (st' ! r)"
    using o d out assms(3) by simp
  then show ?thesis
    using g a l r s d other by auto
qed

lemma distinct_cols: "distinct cols"
  by (simp add: cols_def)

lemma team_filter_length:
  "team_filter st df t = Inr (st', r) \<Longrightarrow>
   length st' = (if t = Str ''All'' then length st else Suc (length st))"
  by (auto simp: team_filter_def split: sum.splits if_splits)

section \<open>The team options of a table with a Team column\<close>

text \<open>
  On a table whose Team column holds texts or missing values, the options of the team
  selector are "All" followed by the distinct texts of the Team column in ascending order.
\<close>

lemma team_options_sorted:
  assumes "wf_frame df"
    and "index_of (columns df) ''Team'' = Some i"
    and "list_all (\<lambda>r. is_Str (snd r ! i) \<or> snd r ! i = NaN) (rows df)"
  shows "\<exists>ts. team_options df = Inr (Str ''All'' # map Str ts)
           \<and> sorted ts \<and> distinct ts
           \<and> set ts = {t. \<exists>r \<in> set (rows df). snd r ! i = Str t}"
proof -
  let ?col = "map (\<lambda>r. snd r ! i) (rows df)"
  let ?vs = "unique (dropna ?col)"
  let ?ts = "sort (map str_of ?vs)"
  have strs: "list_all is_Str ?vs"
    using assms(3) by (auto simp: list_all_iff unique_set dropna_def)
  have "distinct (map str_of ?vs)"
    using strs by (simp add: distinct_map unique_distinct str_of_inj)
  then have d: "distinct ?ts" by simp
  have "set ?ts = str_of ` set ?vs" by simp
  also have "\<dots> = {t. \<exists>r \<in> set (rows df). snd r ! i = Str t}"
  proof (rule set_eqI, rule iffI)
    fix t assume "t \<in> str_of ` set ?vs"
    then obtain v where v: "v \<in> set ?vs" "t = str_of v" by blast
    then have "is_Str v" using strs by (auto simp: list_all_iff)
    then have "v = Str t" using v(2) by (cases v) simp_all
    then show "t \<in> {t. \<exists>r \<in> set (rows df). snd r ! i = Str t}"
      using v(1) Str_in_values [of t i "rows df"] by simp
  next
    fix t assume "t \<in> {t. \<exists>r \<in> set (rows df). snd r ! i = Str t}"
    then have "Str t \<in> set ?vs" using Str_in_values [of t i "rows df"] by simp
    then have "str_of (Str t) \<in> str_of ` set ?vs" by (rule imageI)
    then show "t \<in> str_of ` set ?vs" by simp
  qed
  finally have s: "set ?ts = {t. \<exists>r \<in> set (rows df). snd r ! i = Str t}" .
  have "team_options df = Inr (Str ''All'' # map Str ?ts)"
    by (rule team_options_result [OF assms(2,3)])
  then show ?thesis using d s by (intro exI [of _ ?ts]) simp
qed

lemma team_options_season:
  "wf_frame season \<and> index_of (columns season) ''Team'' = Some 1
   \<and> list_all (\<lambda>r. is_Str (snd r ! 1) \<or> snd r ! 1 = NaN) (rows season)
   \<and> (\<exists>ts. team_options season = Inr (Str ''All'' # map Str ts) \<and> sorted ts \<and> distinct ts
         \<and> set ts = {t. \<exists>r \<in> set (rows season). snd r ! 1 = Str t})
   \<and> team_options season = Inr [Str ''All'', Str ''BOS'', Str ''NYY'']"
proof -
  have h1: "wf_frame season"
    by (simp add: wf_frame_def season_def)
  have h2: "index_of (columns season) ''Team'' = Some 1"
    by (simp add: season_def)
  have h3: "list_all (\<lambda>r. is_Str (snd r ! 1) \<or> snd r ! 1 = NaN) (rows season)"
    by (simp add: season_def)
  have v: "team_options season = Inr [Str ''All'', Str ''BOS'', Str ''NYY'']"
    by (simp add: team_options_def getitem_col_def season_def dropna_def unique_def py_sorted_def)
  show ?thesis
    using team_options_sorted [OF h1 h2 h3] h1 h2 h3 v by blast
qed

section \<open>The claims\<close>

text \<open>
  C1. The specification asks that \<open>clean_data\<close>, on a table with rows that lacks the OBP or
  the SLG column, does not raise and returns a table without OPS. The code reads both
  columns before it looks at which columns exist: on the old season, which has no OBP,
  it raises KeyError.
\<close>

theorem clean_data_missing_OBP_raises:
  "clean_data [old_season] 0 = Inl (KeyError ''OBP'')"
  by (simp add: clean_data_def df_empty_def getitem_col_def old_season_def)

text \<open>
  C2. The specification asks that a second application of \<open>clean_data\<close> to its own result
  gives that result again. On the example season the first application returns a table
  with OPS and without OBP, and the second application raises KeyError on it.
\<close>

theorem clean_data_twice_raises:
  "(case clean_data [season] 0 of
      Inl e \<Rightarrow> False
    | Inr (st, df) \<Rightarrow>
        ''OPS'' \<in> set (columns (st ! df)) \<and> clean_data st df = Inl (KeyError ''OBP''))"
  by (simp add: clean_data_def df_empty_def getitem_col_def add_series_def setitem_col_def
      getitem_cols_def cols_def season_def)

text \<open>
  C3. The specification words the order of a run as derivation first, then the PA filter,
  then the team filter. The code filters by PA first: \<open>clean_data\<close> drops the PA column, so
  in the order of the specification the PA filter raises KeyError on the example season,
  while the run hands a table to the presentation code.
\<close>

theorem spec_order_raises:
  "table_of (stages [season] 0 100 first_option) =
      Inr \<lparr>columns = cols,
           rows = [(0, [Str ''A'', Num 3, Num 0.75, Num 10, Num 0.25, Str ''NYY''])]\<rparr>
   \<and> spec_order season 100 (Str ''All'') = Inl (KeyError ''PA'')"
  by (simp add: clean_data_def df_empty_def getitem_col_def add_series_def setitem_col_def
      getitem_cols_def cols_def pa_filter_def getitem_mask_def team_filter_def team_options_def
      derive_stage_def team_stage_def stages_def season_def spec_order_def deriveAndProject_def
      filterByPA_def filterByTeam_def dropna_def unique_def py_sorted_def first_option_def)

text \<open>
  C3, as the code has it. The table that a run hands to the presentation code is the
  result of the PA filter, then \<open>clean_data\<close>, then the team filter, each applied to the
  table of the stage before it; the team filter is skipped when the derived table is
  empty, and an empty fetched table is handed on as it is. The exceptions agree as well.
\<close>

theorem stages_order:
  assumes "df < length st"
  shows "table_of (stages st df m selectbox) = code_order (st ! df) m selectbox"
proof (cases "df_empty (st ! df)")
  case True
  then show ?thesis
    by (simp add: stages_def derive_stage_def team_stage_def code_order_def)
next
  case False
  show ?thesis
  proof (cases "pa_filter st df m")
    case (Inl e)
    then show ?thesis
      using False pa_filter_Inl [OF Inl]
      by (simp add: stages_def derive_stage_def code_order_def)
  next
    case (Inr p)
    obtain st1 r1 where p: "p = (st1, r1)" by (cases p)
    from pa_filter_Inr [OF Inr [unfolded p]] obtain t1 where
      t1: "st1 = st @ [t1]" "r1 = length st" "filterByPA (st ! df) m = Inr t1" by blast
    have c: "table_of (clean_data st1 r1) = deriveAndProject t1"
      using table_of_clean_data [of r1 st1] t1(1,2) by simp
    show ?thesis
    proof (cases "clean_data st1 r1")
      case (Inl e)
      then have "deriveAndProject t1 = Inl e"
        using c by simp
      then show ?thesis
        using False Inr p t1(3) Inl
        by (simp add: stages_def derive_stage_def code_order_def)
    next
      case (Inr q)
      obtain st2 r2 where q: "q = (st2, r2)" by (cases q)
      have "deriveAndProject t1 = Inr (st2 ! r2)"
        using c Inr q by simp
      then show ?thesis
        using False \<open>pa_filter st df m = Inr p\<close> p Inr q t1(3)
        by (simp add: stages_def derive_stage_def code_order_def table_of_team_stage)
    qed
  qed
qed

theorem stages_order_witness:
  "0 < length [season]
   \<and> table_of (stages [season] 0 100 first_option) = code_order ([season] ! 0) 100 first_option
   \<and> code_order season 100 first_option =
       Inr \<lparr>columns = cols,
            rows = [(0, [Str ''A'', Num 3, Num 0.75, Num 10, Num 0.25, Str ''NYY''])]\<rparr>"
proof -
  have h: "0 < length [season]" by simp
  have v: "code_order season 100 first_option =
       Inr \<lparr>columns = cols,
            rows = [(0, [Str ''A'', Num 3, Num 0.75, Num 10, Num 0.25, Str ''NYY''])]\<rparr>"
    by (simp add: code_order_def clean_data_def df_empty_def getitem_col_def add_series_def
        setitem_col_def getitem_cols_def cols_def pa_filter_def getitem_mask_def team_filter_def
        team_options_def season_def deriveAndProject_def filterByPA_def filterByTeam_def
        dropna_def unique_def py_sorted_def first_option_def)
  show ?thesis
    using stages_order [OF h, of 100 first_option] h v by simp
qed

text \<open>
  C4. The specification asks that no operation changes the table it is given. On the
  example season \<open>clean_data\<close> leaves its argument with one more column, OPS.
\<close>

theorem clean_data_mutates:
  "(case clean_data [season] 0 of
      Inl e \<Rightarrow> False
    | Inr (st', r) \<Rightarrow> st' ! 0 \<noteq> season \<and> columns (st' ! 0) = columns season @ [''OPS''])"
  by (simp add: clean_data_def df_empty_def getitem_col_def add_series_def setitem_col_def
      getitem_cols_def cols_def season_def)

text \<open>
  C4, as the code has it. The PA filter, the team filter and a whole run leave every
  table that existed before, the fetched one among them, as it was; the filters return a
  new table (the team filter with "All" the table it was given). \<open>clean_data\<close> on a table
  that is not empty changes the table it is given and no other: that table keeps its
  rows and its columns, except that OPS, appended when it was absent, now holds the sum
  of OBP and SLG. The table it returns is new: the members of the fixed list that are
  columns of the changed table, each with the cells it has there.
\<close>

theorem pipeline_frame_effects:
  assumes "df < length st"
  shows "(\<forall>st' r. pa_filter st df m = Inr (st', r) \<longrightarrow>
            take (length st) st' = st \<and> r = length st \<and> length st' = Suc (length st)
            \<and> st' ! df = st ! df)
       \<and> (\<forall>st' r. team_filter st df team = Inr (st', r) \<longrightarrow>
            take (length st) st' = st \<and> r = (if team = Str ''All'' then df else length st)
            \<and> length st' = (if team = Str ''All'' then length st else Suc (length st))
            \<and> st' ! df = st ! df)
       \<and> (\<forall>st' r. stages st df m selectbox = Inr (st', r) \<longrightarrow>
            take (length st) st' = st \<and> st' ! df = st ! df)
       \<and> (\<forall>st' r. clean_data st df = Inr (st', r) \<longrightarrow> \<not> df_empty (st ! df) \<longrightarrow>
            wf_frame (st ! df) \<longrightarrow>
              r = length st \<and> length st' = Suc (length st)
            \<and> (\<forall>a < length st. a \<noteq> df \<longrightarrow> st' ! a = st ! a)
            \<and> wf_frame (st' ! df)
            \<and> columns (st' ! df) =
                 (if ''OPS'' \<in> set (columns (st ! df)) then columns (st ! df)
                  else columns (st ! df) @ [''OPS''])
            \<and> map fst (rows (st' ! df)) = map fst (rows (st ! df))
            \<and> (\<exists>obp slg. getitem_col (st ! df) ''OBP'' = Inr obp
                  \<and> getitem_col (st ! df) ''SLG'' = Inr slg
                  \<and> getitem_col (st' ! df) ''OPS'' = add_series obp slg)
            \<and> (\<forall>c. c \<noteq> ''OPS'' \<longrightarrow> getitem_col (st' ! df) c = getitem_col (st ! df) c)
            \<and> wf_frame (st' ! r)
            \<and> columns (st' ! r) = filter (\<lambda>c. c \<in> set (columns (st' ! df))) cols
            \<and> map fst (rows (st' ! r)) = map fst (rows (st' ! df))
            \<and> (\<forall>c \<in> set (columns (st' ! r)). getitem_col (st' ! r) c = getitem_col (st' ! df) c))"
proof -
  have keep: "st' ! df = st ! df" if "take (length st) st' = st" for st'
  proof -
    have "take (length st) st' ! df = st' ! df" using assms by simp
    then show ?thesis using that by simp
  qed
  have 1: "\<forall>st' r. pa_filter st df m = Inr (st', r) \<longrightarrow>
            take (length st) st' = st \<and> r = length st \<and> length st' = Suc (length st)
            \<and> st' ! df = st ! df"
    using pa_filter_store keep by blast
  have 2: "\<forall>st' r. team_filter st df team = Inr (st', r) \<longrightarrow>
            take (length st) st' = st \<and> r = (if team = Str ''All'' then df else length st)
            \<and> length st' = (if team = Str ''All'' then length st else Suc (length st))
            \<and> st' ! df = st ! df"
    using team_filter_store team_filter_length keep by blast
  have 3: "\<forall>st' r. stages st df m selectbox = Inr (st', r) \<longrightarrow>
            take (length st) st' = st \<and> st' ! df = st ! df"
    using stages_store keep by blast
  have 4: "\<forall>st' r. clean_data st df = Inr (st', r) \<longrightarrow> \<not> df_empty (st ! df) \<longrightarrow>
            wf_frame (st ! df) \<longrightarrow>
              r = length st \<and> length st' = Suc (length st)
            \<and> (\<forall>a < length st. a \<noteq> df \<longrightarrow> st' ! a = st ! a)
            \<and> wf_frame (st' ! df)
            \<and> columns (st' ! df) =
                 (if ''OPS'' \<in> set (columns (st ! df)) then columns (st ! df)
                  else columns (st ! df) @ [''OPS''])
            \<and> map fst (rows (st' ! df)) = map fst (rows (st ! df))
            \<and> (\<exists>obp slg. getitem_col (st ! df) ''OBP'' = Inr obp
                  \<and> getitem_col (st ! df) ''SLG'' = Inr slg
                  \<and> getitem_col (st' ! df) ''OPS'' = add_series obp slg)
            \<and> (\<forall>c. c \<noteq> ''OPS'' \<longrightarrow> getitem_col (st' ! df) c = getitem_col (st ! df) c)
            \<and> wf_frame (st' ! r)
            \<and> columns (st' ! r) = filter (\<lambda>c. c \<in> set (columns (st' ! df))) cols
            \<and> map fst (rows (st' ! r)) = map fst (rows (st' ! df))
            \<and> (\<forall>c \<in> set (columns (st' ! r)). getitem_col (st' ! r) c = getitem_col (st' ! df) c)"
  proof (intro allI impI)
    fix st' r
    assume a: "clean_data st df = Inr (st', r)" and e: "\<not> df_empty (st ! df)"
      and w: "wf_frame (st ! df)"
    from clean_data_effect [OF a e assms] obtain obp slg ops where
      g: "getitem_col (st ! df) ''OBP'' = Inr obp" "getitem_col (st ! df) ''SLG'' = Inr slg"
      and s: "add_series obp slg = Inr ops" and l: "length ops = length (rows (st ! df))"
      and r: "r = length st" "length st' = Suc (length st)"
      and d: "st' ! df = setitem_col (st ! df) ''OPS'' ops"
      and other: "\<forall>a < length st. a \<noteq> df \<longrightarrow> st' ! a = st ! a"
      and o: "getitem_cols (st' ! df) (filter (\<lambda>c. c \<in> set (columns (st' ! df))) cols) = Inr (st' ! r)"
      by blast
    let ?av = "filter (\<lambda>c. c \<in> set (columns (st' ! df))) cols"
    have wd: "wf_frame (st' ! df)" and ld: "map fst (rows (st' ! df)) = map fst (rows (st ! df))"
      using setitem_col_wf_frame [OF w l, of "''OPS''"] d by simp_all
    have cd: "columns (st' ! df) =
        (if ''OPS'' \<in> set (columns (st ! df)) then columns (st ! df) else columns (st ! df) @ [''OPS''])"
      by (simp add: d columns_setitem_col)
    have rd: "\<forall>c. getitem_col (st' ! df) c = (if c = ''OPS'' then Inr ops else getitem_col (st ! df) c)"
      using setitem_col_read [OF w l, of "''OPS''"] d by simp
    have ops: "\<exists>obp slg. getitem_col (st ! df) ''OBP'' = Inr obp
                  \<and> getitem_col (st ! df) ''SLG'' = Inr slg
                  \<and> getitem_col (st' ! df) ''OPS'' = add_series obp slg"
      using g s rd by auto
    have rest: "\<forall>c. c \<noteq> ''OPS'' \<longrightarrow> getitem_col (st' ! df) c = getitem_col (st ! df) c"
      using rd by simp
    have sub: "set ?av \<subseteq> set (columns (st' ! df))" by auto
    have dis: "distinct ?av" using distinct_cols by simp
    from getitem_cols_wf_frame [OF wd sub o dis]
    have wo: "wf_frame (st' ! r)" and co: "columns (st' ! r) = ?av"
      and lo: "map fst (rows (st' ! r)) = map fst (rows (st' ! df))" by simp_all
    have ro: "\<forall>c \<in> set (columns (st' ! r)). getitem_col (st' ! r) c = getitem_col (st' ! df) c"
      using getitem_cols_read [OF wd sub o] co by simp
    show "r = length st \<and> length st' = Suc (length st)
            \<and> (\<forall>a < length st. a \<noteq> df \<longrightarrow> st' ! a = st ! a)
            \<and> wf_frame (st' ! df)
            \<and> columns (st' ! df) =
                 (if ''OPS'' \<in> set (columns (st ! df)) then columns (st ! df)
                  else columns (st ! df) @ [''OPS''])
            \<and> map fst (rows (st' ! df)) = map fst (rows (st ! df))
            \<and> (\<exists>obp slg. getitem_col (st ! df) ''OBP'' = Inr obp
                  \<and> getitem_col (st ! df) ''SLG'' = Inr slg
                  \<and> getitem_col (st' ! df) ''OPS'' = add_series obp slg)
            \<and> (\<forall>c. c \<noteq> ''OPS'' \<longrightarrow> getitem_col (st' ! df) c = getitem_col (st ! df) c)
            \<and> wf_frame (st' ! r)
            \<and> columns (st' ! r) = filter (\<lambda>c. c \<in> set (columns (st' ! df))) cols
            \<and> map fst (rows (st' ! r)) = map fst (rows (st' ! df))
            \<and> (\<forall>c \<in> set (columns (st' ! r)). getitem_col (st' ! r) c = getitem_col (st' ! df) c)"
      using r other wd cd ld ops rest wo co lo ro by (intro conjI)
  qed
  show ?thesis using 1 2 3 4 by (intro conjI)
qed

theorem pipeline_frame_effects_witness:
  "0 < length [season]
   \<and> (\<exists>st' r. pa_filter [season] 0 100 = Inr (st', r) \<and> st' ! 0 = season \<and> r = 1)
   \<and> (\<exists>st' r. team_filter [season] 0 (Str ''BOS'') = Inr (st', r) \<and> st' ! 0 = season \<and> r = 1)
   \<and> (\<exists>st' r. stages [season] 0 100 first_option = Inr (st', r) \<and> st' ! 0 = season)
   \<and> \<not> df_empty ([season] ! 0) \<and> wf_frame ([season] ! 0)
   \<and> (\<exists>st' r. clean_data [season] 0 = Inr (st', r) \<and> r = 1 \<and> length st' = 2
         \<and> columns (st' ! 0) =
             [''Name'', ''Team'', ''PA'', ''OBP'', ''SLG'', ''WAR'', ''HR'', ''AVG'', ''OPS'']
         \<and> getitem_col (st' ! 0) ''OPS'' = Inr [Num 0.75, Num 0.875]
         \<and> getitem_col (st' ! 0) ''PA'' = Inr [Num 150, Num 50])"
proof -
  have h: "0 < length [season]" by simp
  note t = pipeline_frame_effects [OF h, of 100 "Str ''BOS''" first_option]
  have e: "\<not> df_empty ([season] ! 0)"
    by (simp add: df_empty_def season_def)
  have w: "wf_frame ([season] ! 0)"
    by (simp add: wf_frame_def season_def)
  have "\<exists>st' r. pa_filter [season] 0 100 = Inr (st', r)"
    by (simp add: pa_filter_def getitem_col_def season_def)
  then obtain s1 r1 where 1: "pa_filter [season] 0 100 = Inr (s1, r1)" by blast
  from t [THEN conjunct1, rule_format, OF 1]
  have "s1 ! 0 = [season] ! 0 \<and> r1 = length [season]" by simp
  with 1 have a: "\<exists>st' r. pa_filter [season] 0 100 = Inr (st', r) \<and> st' ! 0 = season \<and> r = 1"
    by auto
  have "\<exists>st' r. team_filter [season] 0 (Str ''BOS'') = Inr (st', r)"
    by (simp add: team_filter_def getitem_col_def season_def)
  then obtain s2 r2 where 2: "team_filter [season] 0 (Str ''BOS'') = Inr (s2, r2)" by blast
  from t [THEN conjunct2, THEN conjunct1, rule_format, OF 2]
  have "s2 ! 0 = [season] ! 0 \<and> r2 = (if Str ''BOS'' = Str ''All'' then 0 else length [season])"
    by simp
  with 2 have b: "\<exists>st' r. team_filter [season] 0 (Str ''BOS'') = Inr (st', r) \<and> st' ! 0 = season \<and> r = 1"
    by auto
  have "\<exists>st' r. stages [season] 0 100 first_option = Inr (st', r)"
    by (simp add: clean_data_def df_empty_def getitem_col_def add_series_def setitem_col_def
      getitem_cols_def cols_def pa_filter_def getitem_mask_def team_filter_def team_options_def
      derive_stage_def team_stage_def stages_def season_def
      dropna_def unique_def py_sorted_def first_option_def)
  then obtain s3 r3 where 3: "stages [season] 0 100 first_option = Inr (s3, r3)" by blast
  from t [THEN conjunct2, THEN conjunct2, THEN conjunct1, rule_format, OF 3]
  have "s3 ! 0 = [season] ! 0" by simp
  with 3 have c: "\<exists>st' r. stages [season] 0 100 first_option = Inr (st', r) \<and> st' ! 0 = season"
    by auto
  have "\<exists>st' r. clean_data [season] 0 = Inr (st', r)"
    by (simp add: clean_data_def df_empty_def getitem_col_def add_series_def setitem_col_def
      getitem_cols_def cols_def season_def)
  then obtain s4 r4 where 4: "clean_data [season] 0 = Inr (s4, r4)" by blast
  note u = t [THEN conjunct2, THEN conjunct2, THEN conjunct2, rule_format, OF 4 e w]
  have g1: "getitem_col ([season] ! 0) ''OBP'' = Inr [Num 0.25, Num 0.375]"
    by (simp add: getitem_col_def season_def)
  have g2: "getitem_col ([season] ! 0) ''SLG'' = Inr [Num 0.5, Num 0.5]"
    by (simp add: getitem_col_def season_def)
  have g3: "getitem_col ([season] ! 0) ''PA'' = Inr [Num 150, Num 50]"
    by (simp add: getitem_col_def season_def)
  have g4: "add_series [Num 0.25, Num 0.375] [Num 0.5, Num 0.5] = Inr [Num 0.75, Num 0.875]"
    by (simp add: add_series_def)
  have g5: "columns ([season] ! 0) =
      [''Name'', ''Team'', ''PA'', ''OBP'', ''SLG'', ''WAR'', ''HR'', ''AVG'']"
    by (simp add: season_def)
  from u have "r4 = length [season] \<and> length s4 = Suc (length [season])"
    by blast
  then have 5: "r4 = 1 \<and> length s4 = 2" by simp
  from u have "columns (s4 ! 0) =
      (if ''OPS'' \<in> set (columns ([season] ! 0)) then columns ([season] ! 0)
       else columns ([season] ! 0) @ [''OPS''])"
    by blast
  then have 6: "columns (s4 ! 0) =
      [''Name'', ''Team'', ''PA'', ''OBP'', ''SLG'', ''WAR'', ''HR'', ''AVG'', ''OPS'']"
    by (simp add: season_def)
  from u obtain obp slg where "getitem_col ([season] ! 0) ''OBP'' = Inr obp"
    "getitem_col ([season] ! 0) ''SLG'' = Inr slg" "getitem_col (s4 ! 0) ''OPS'' = add_series obp slg"
    by blast
  with g1 g2 g4 have 7: "getitem_col (s4 ! 0) ''OPS'' = Inr [Num 0.75, Num 0.875]"
    by simp
  from u have "\<forall>c. c \<noteq> ''OPS'' \<longrightarrow> getitem_col (s4 ! 0) c = getitem_col ([season] ! 0) c"
    by blast
  then have "getitem_col (s4 ! 0) ''PA'' = getitem_col ([season] ! 0) ''PA''"
    by simp
  with g3 have 8: "getitem_col (s4 ! 0) ''PA'' = Inr [Num 150, Num 50]"
    by simp
  have d: "\<exists>st' r. clean_data [season] 0 = Inr (st', r) \<and> r = 1 \<and> length st' = 2
         \<and> columns (st' ! 0) =
             [''Name'', ''Team'', ''PA'', ''OBP'', ''SLG'', ''WAR'', ''HR'', ''AVG'', ''OPS'']
         \<and> getitem_col (st' ! 0) ''OPS'' = Inr [Num 0.75, Num 0.875]
         \<and> getitem_col (st' ! 0) ''PA'' = Inr [Num 150, Num 50]"
    using 4 5 6 7 8 by (intro exI [of _ s4] exI [of _ r4]) simp
  show ?thesis
    using h a b c e w d by (intro conjI)
qed

text \<open>
  C5. When the provider raises an exception, \<open>fetch_data\<close> does not raise: it shows one
  error message, which names the year and the exception, and returns the empty table,
  which has no rows.
\<close>

theorem fetch_data_failure:
  assumes "batting_stats year = Inl e" and "is_Exception e"
  shows "fetch_data batting_stats year =
           ([''Error fetching data for '' @ str_int year @ '': '' @ str_exn e], Inr DataFrame)
         \<and> rows DataFrame = [] \<and> df_empty DataFrame"
  using assms by (simp add: fetch_data_def DataFrame_def df_empty_def)

theorem fetch_data_failure_witness:
  "provider_down 1999 = Inl (Exception ''timeout'') \<and> is_Exception (Exception ''timeout'')
   \<and> fetch_data provider_down 1999 =
       ([''Error fetching data for 1999: timeout''], Inr DataFrame)
   \<and> rows DataFrame = []"
proof -
  have h1: "provider_down 1999 = Inl (Exception ''timeout'')"
    by (simp add: provider_down_def)
  have h2: "is_Exception (Exception ''timeout'')"
    by simp
  have s: "str_int 1999 = ''1999''"
    by (simp add: str_int_def digit_char_def)
  show ?thesis
    using fetch_data_failure [of provider_down 1999 "Exception ''timeout''", OF h1 h2] h1 s
    by simp
qed

text \<open>
  C6. On a table whose PA column holds numbers or missing values, the PA filter returns
  a new table with the same columns whose rows are exactly the rows of the input with
  PA at least \<open>min_pa\<close>, in the order of the input.
\<close>

theorem pa_filter_rows:
  assumes "wf_frame (st ! df)"
    and "index_of (columns (st ! df)) ''PA'' = Some i"
    and "list_all (\<lambda>r. \<not> is_Str (snd r ! i)) (rows (st ! df))"
  shows "\<exists>out. pa_filter st df m = Inr (st @ [out], length st)
           \<and> columns out = columns (st ! df)
           \<and> rows out = filter (\<lambda>r. at_least m (snd r ! i)) (rows (st ! df))
           \<and> set (rows out) \<subseteq> set (rows (st ! df))
           \<and> subseq (rows out) (rows (st ! df))
           \<and> wf_frame out"
  using assms by (auto simp: pa_filter_result wf_frame_def list_all_iff)

theorem pa_filter_rows_witness:
  "wf_frame ([season] ! 0) \<and> index_of (columns ([season] ! 0)) ''PA'' = Some 2
   \<and> list_all (\<lambda>r. \<not> is_Str (snd r ! 2)) (rows ([season] ! 0))
   \<and> (\<exists>out. pa_filter [season] 0 100 = Inr ([season] @ [out], length [season])
         \<and> columns out = columns season
         \<and> rows out =
             [(0, [Str ''A'', Str ''NYY'', Num 150, Num 0.25, Num 0.5, Num 3, Num 10, Num 0.25])])"
proof -
  have h1: "wf_frame ([season] ! 0)"
    by (simp add: wf_frame_def season_def)
  have h2: "index_of (columns ([season] ! 0)) ''PA'' = Some 2"
    by (simp add: season_def)
  have h3: "list_all (\<lambda>r. \<not> is_Str (snd r ! 2)) (rows ([season] ! 0))"
    by (simp add: season_def)
  have r: "filter (\<lambda>r. at_least 100 (snd r ! 2)) (rows season) =
      [(0, [Str ''A'', Str ''NYY'', Num 150, Num 0.25, Num 0.5, Num 3, Num 10, Num 0.25])]"
    by (simp add: season_def at_least_def)
  from pa_filter_rows [OF h1 h2 h3, of 100] obtain out where
    "pa_filter [season] 0 100 = Inr ([season] @ [out], length [season])"
    "columns out = columns ([season] ! 0)"
    "rows out = filter (\<lambda>r. at_least 100 (snd r ! 2)) (rows ([season] ! 0))"
    by blast
  then have "pa_filter [season] 0 100 = Inr ([season] @ [out], length [season])
      \<and> columns out = columns season
      \<and> rows out =
          [(0, [Str ''A'', Str ''NYY'', Num 150, Num 0.25, Num 0.5, Num 3, Num 10, Num 0.25])]"
    using r by simp
  then show ?thesis
    using h1 h2 h3 by blast
qed

text \<open>
  C7. The team filter with the selector "All" returns the table it is given, the same
  object. With any other selector, on a table with a Team column, it returns a new table
  with the same columns whose rows are exactly the rows of the input whose Team equals
  the selector, in the order of the input.
\<close>

theorem team_filter_rows:
  assumes "wf_frame (st ! df)"
    and "index_of (columns (st ! df)) ''Team'' = Some i"
    and "team \<noteq> Str ''All''" and "team \<noteq> NaN"
  shows "team_filter st df (Str ''All'') = Inr (st, df)
         \<and> filterByTeam (st ! df) (Str ''All'') = Inr (st ! df)
         \<and> (\<exists>out. team_filter st df team = Inr (st @ [out], length st)
               \<and> columns out = columns (st ! df)
               \<and> rows out = filter (\<lambda>r. snd r ! i = team) (rows (st ! df))
               \<and> subseq (rows out) (rows (st ! df))
               \<and> wf_frame out)"
proof -
  have "team_filter st df (Str ''All'') = Inr (st, df)"
    by (simp add: team_filter_def)
  moreover have "filterByTeam (st ! df) (Str ''All'') = Inr (st ! df)"
    by (simp add: filterByTeam_def team_filter_def)
  moreover have "wf_frame ((st ! df)\<lparr>rows := filter (\<lambda>r. snd r ! i = team) (rows (st ! df))\<rparr>)"
    using assms(1) by (simp add: wf_frame_def list_all_iff)
  ultimately show ?thesis
    using team_filter_result [OF assms(2,3,4)] by simp
qed

theorem team_filter_rows_witness:
  "wf_frame ([season] ! 0) \<and> index_of (columns ([season] ! 0)) ''Team'' = Some 1
   \<and> Str ''BOS'' \<noteq> Str ''All'' \<and> Str ''BOS'' \<noteq> NaN
   \<and> team_filter [season] 0 (Str ''All'') = Inr ([season], 0)
   \<and> (\<exists>out. team_filter [season] 0 (Str ''BOS'') = Inr ([season] @ [out], length [season])
         \<and> rows out =
             [(1, [Str ''B'', Str ''BOS'', Num 50, Num 0.375, Num 0.5, Num 2, Num 5, Num 0.25])])"
proof -
  have h1: "wf_frame ([season] ! 0)"
    by (simp add: wf_frame_def season_def)
  have h2: "index_of (columns ([season] ! 0)) ''Team'' = Some 1"
    by (simp add: season_def)
  have h3: "Str ''BOS'' \<noteq> Str ''All''" by simp
  have h4: "Str ''BOS'' \<noteq> NaN" by simp
  have r: "filter (\<lambda>r. snd r ! 1 = Str ''BOS'') (rows ([season] ! 0)) =
      [(1, [Str ''B'', Str ''BOS'', Num 50, Num 0.375, Num 0.5, Num 2, Num 5, Num 0.25])]"
    by (simp add: season_def)
  from team_filter_rows [OF h1 h2 h3 h4] obtain out where
    a: "team_filter [season] 0 (Str ''All'') = Inr ([season], 0)"
    and b: "team_filter [season] 0 (Str ''BOS'') = Inr ([season] @ [out], length [season])"
    and c: "rows out = filter (\<lambda>r. snd r ! 1 = Str ''BOS'') (rows ([season] ! 0))"
    by blast
  have "\<exists>out. team_filter [season] 0 (Str ''BOS'') = Inr ([season] @ [out], length [season])
         \<and> rows out =
             [(1, [Str ''B'', Str ''BOS'', Num 50, Num 0.375, Num 0.5, Num 2, Num 5, Num 0.25])]"
    using b c r by (intro exI [of _ out]) simp
  then show ?thesis
    using h1 h2 h3 h4 a by blast
qed

text \<open>
  C8. On an empty table \<open>clean_data\<close> returns the table it is given, and so does each
  stage of the run and the run as a whole, without an exception: the guards of lines 49
  and 54 skip both filters. The same holds from the fetch on, when the provider returns
  an empty table and when it fails.
\<close>

theorem empty_table_stages:
  assumes "df_empty (st ! df)"
  shows "clean_data st df = Inr (st, df)
         \<and> derive_stage st df m = Inr (st, df)
         \<and> team_stage st df selectbox = Inr (st, df)
         \<and> stages st df m selectbox = Inr (st, df)
         \<and> table_of (stages st df m selectbox) = Inr (st ! df)
         \<and> dashboard (\<lambda>y. Inr (st ! df)) year m selectbox = ([], Inr ([st ! df], 0))
         \<and> snd (dashboard (\<lambda>y. Inl (Exception msg)) year m selectbox) = Inr ([DataFrame], 0)"
proof -
  have 1: "stages st df m selectbox = Inr (st, df)"
    using assms by (simp add: clean_data_def derive_stage_def team_stage_def stages_def)
  have "stages [st ! df] 0 m selectbox = Inr ([st ! df], 0)"
    using assms by (simp add: clean_data_def derive_stage_def team_stage_def stages_def)
  then have 2: "dashboard (\<lambda>y. Inr (st ! df)) year m selectbox = ([], Inr ([st ! df], 0))"
    by (simp add: dashboard_def fetch_data_def)
  have "df_empty DataFrame"
    by (simp add: DataFrame_def df_empty_def)
  then have "stages [DataFrame] 0 m selectbox = Inr ([DataFrame], 0)"
    by (simp add: clean_data_def derive_stage_def team_stage_def stages_def)
  then have 3: "snd (dashboard (\<lambda>y. Inl (Exception msg)) year m selectbox) = Inr ([DataFrame], 0)"
    by (simp add: dashboard_def fetch_data_def)
  show ?thesis
    using assms 1 2 3 by (simp add: clean_data_def derive_stage_def team_stage_def)
qed

theorem empty_table_stages_witness:
  "df_empty ([no_rows] ! 0)
   \<and> clean_data [no_rows] 0 = Inr ([no_rows], 0)
   \<and> derive_stage [no_rows] 0 100 = Inr ([no_rows], 0)
   \<and> team_stage [no_rows] 0 first_option = Inr ([no_rows], 0)
   \<and> stages [no_rows] 0 100 first_option = Inr ([no_rows], 0)"
proof -
  have h: "df_empty ([no_rows] ! 0)"
    by (simp add: df_empty_def no_rows_def)
  show ?thesis
    using empty_table_stages [OF h, of 100 first_option] h by simp
qed

text \<open>
  C9. The specification gives the options of the team selector for every table that the
  PA filter and \<open>clean_data\<close> produce. For a season without a Team column \<open>clean_data\<close>
  returns a table with rows and without Team (line 24 keeps the columns that exist), and
  line 58 reads \<open>df["Team"]\<close> on it: the run raises KeyError, where the options would be
  "All" alone.
\<close>

theorem team_options_missing_Team_raises:
  "(case derive_stage [season_noteam] 0 100 of
      Inl e \<Rightarrow> False
    | Inr (st, df) \<Rightarrow>
        \<not> df_empty (st ! df)
        \<and> columns (st ! df) = [''Name'', ''WAR'', ''OPS'', ''HR'', ''AVG'']
        \<and> team_options (st ! df) = Inl (KeyError ''Team''))
   \<and> stages [season_noteam] 0 100 first_option = Inl (KeyError ''Team'')"
  by (simp add: clean_data_def df_empty_def getitem_col_def add_series_def setitem_col_def
      getitem_cols_def cols_def pa_filter_def getitem_mask_def team_options_def
      derive_stage_def team_stage_def stages_def season_noteam_def)

text \<open>
  C10. On a table of the provider that is not empty, the table that \<open>clean_data\<close> returns
  has as columns the members of Name, WAR, OPS, HR, AVG, Team, in this order, that are
  OPS or a column of the input; OPS is among them and PA, OBP and SLG are not. It has the
  rows of the input, in order and under their labels; its OPS column is the sum of the
  input's OBP and SLG, and every other column has the cells it has in the input.
  \<open>clean_data\<close> does return a table when OBP and SLG are columns of numbers or missing
  values.
\<close>

theorem clean_data_columns:
  assumes "df < length st" and "\<not> df_empty (st ! df)" and "wf_frame (st ! df)"
  shows "(\<forall>st' r. clean_data st df = Inr (st', r) \<longrightarrow>
            columns (st' ! r) = filter (\<lambda>c. c = ''OPS'' \<or> c \<in> set (columns (st ! df))) cols
          \<and> ''OPS'' \<in> set (columns (st' ! r))
          \<and> ''PA'' \<notin> set (columns (st' ! r)) \<and> ''OBP'' \<notin> set (columns (st' ! r))
          \<and> ''SLG'' \<notin> set (columns (st' ! r))
          \<and> wf_frame (st' ! r)
          \<and> map fst (rows (st' ! r)) = map fst (rows (st ! df))
          \<and> (\<exists>obp slg. getitem_col (st ! df) ''OBP'' = Inr obp
                \<and> getitem_col (st ! df) ''SLG'' = Inr slg
                \<and> getitem_col (st' ! r) ''OPS'' = add_series obp slg)
          \<and> (\<forall>c \<in> set (columns (st' ! r)). c \<noteq> ''OPS'' \<longrightarrow>
                getitem_col (st' ! r) c = getitem_col (st ! df) c))
       \<and> (\<forall>i j. index_of (columns (st ! df)) ''OBP'' = Some i \<longrightarrow>
                 index_of (columns (st ! df)) ''SLG'' = Some j \<longrightarrow>
                 list_all (\<lambda>r. \<not> is_Str (snd r ! i) \<and> \<not> is_Str (snd r ! j)) (rows (st ! df)) \<longrightarrow>
                 (\<exists>st' r. clean_data st df = Inr (st', r)))"
proof (intro conjI allI impI)
  fix st' r assume a: "clean_data st df = Inr (st', r)"
  from clean_data_effect [OF a assms(2,1)] obtain obp slg ops where
    g: "getitem_col (st ! df) ''OBP'' = Inr obp" "getitem_col (st ! df) ''SLG'' = Inr slg"
    and s: "add_series obp slg = Inr ops" and l: "length ops = length (rows (st ! df))"
    and d: "st' ! df = setitem_col (st ! df) ''OPS'' ops"
    and o: "getitem_cols (st' ! df) (filter (\<lambda>c. c \<in> set (columns (st' ! df))) cols) = Inr (st' ! r)"
    by blast
  let ?av = "filter (\<lambda>c. c \<in> set (columns (st' ! df))) cols"
  have wd: "wf_frame (st' ! df)" and ld: "map fst (rows (st' ! df)) = map fst (rows (st ! df))"
    using setitem_col_wf_frame [OF assms(3) l, of "''OPS''"] d by simp_all
  have sub: "set ?av \<subseteq> set (columns (st' ! df))" by auto
  have dis: "distinct ?av" using distinct_cols by simp
  from getitem_cols_wf_frame [OF wd sub o dis]
  have wo: "wf_frame (st' ! r)" and co: "columns (st' ! r) = ?av"
    and lo: "map fst (rows (st' ! r)) = map fst (rows (st' ! df))" by simp_all
  have "?av = filter (\<lambda>c. c = ''OPS'' \<or> c \<in> set (columns (st ! df))) cols"
    by (rule filter_cong) (auto simp: d columns_setitem_col)
  then show c: "columns (st' ! r) = filter (\<lambda>c. c = ''OPS'' \<or> c \<in> set (columns (st ! df))) cols"
    using co by simp
  show ops: "''OPS'' \<in> set (columns (st' ! r))" by (simp add: c cols_def)
  show "''PA'' \<notin> set (columns (st' ! r))" by (simp add: c cols_def)
  show "''OBP'' \<notin> set (columns (st' ! r))" by (simp add: c cols_def)
  show "''SLG'' \<notin> set (columns (st' ! r))" by (simp add: c cols_def)
  show "wf_frame (st' ! r)" by (rule wo)
  show "map fst (rows (st' ! r)) = map fst (rows (st ! df))" using lo ld by simp
  have rd: "getitem_col (st' ! r) c = getitem_col (st' ! df) c" if "c \<in> set (columns (st' ! r))" for c
    using getitem_cols_read [OF wd sub o] that co by simp
  have "getitem_col (st' ! r) ''OPS'' = add_series obp slg"
    using rd [OF ops] setitem_col_read [OF assms(3) l, of "''OPS''" "''OPS''"] d s by simp
  then show "\<exists>obp slg. getitem_col (st ! df) ''OBP'' = Inr obp
                \<and> getitem_col (st ! df) ''SLG'' = Inr slg
                \<and> getitem_col (st' ! r) ''OPS'' = add_series obp slg"
    using g by blast
  show "\<forall>c \<in> set (columns (st' ! r)). c \<noteq> ''OPS'' \<longrightarrow>
          getitem_col (st' ! r) c = getitem_col (st ! df) c"
  proof (intro ballI impI)
    fix c assume "c \<in> set (columns (st' ! r))" and "c \<noteq> ''OPS''"
    then show "getitem_col (st' ! r) c = getitem_col (st ! df) c"
      using rd [of c] setitem_col_read [OF assms(3) l, of "''OPS''" c] d by simp
  qed
next
  fix i j
  assume i: "index_of (columns (st ! df)) ''OBP'' = Some i"
    and j: "index_of (columns (st ! df)) ''SLG'' = Some j"
    and n: "list_all (\<lambda>r. \<not> is_Str (snd r ! i) \<and> \<not> is_Str (snd r ! j)) (rows (st ! df))"
  obtain ops where "add_series (map (\<lambda>r. snd r ! i) (rows (st ! df))) (map (\<lambda>r. snd r ! j) (rows (st ! df))) = Inr ops"
    using add_series_ok [OF n] by blast
  then show "\<exists>st' r. clean_data st df = Inr (st', r)"
    using clean_data_total [OF assms(1) getitem_col_Some [OF i] getitem_col_Some [OF j]] by blast
qed

theorem clean_data_columns_witness:
  "0 < length [season] \<and> \<not> df_empty ([season] ! 0) \<and> wf_frame ([season] ! 0)
   \<and> index_of (columns ([season] ! 0)) ''OBP'' = Some 3
   \<and> index_of (columns ([season] ! 0)) ''SLG'' = Some 4
   \<and> list_all (\<lambda>r. \<not> is_Str (snd r ! 3) \<and> \<not> is_Str (snd r ! 4)) (rows ([season] ! 0))
   \<and> (\<exists>st' r. clean_data [season] 0 = Inr (st', r)
         \<and> columns (st' ! r) = [''Name'', ''WAR'', ''OPS'', ''HR'', ''AVG'', ''Team'']
         \<and> map fst (rows (st' ! r)) = [0, 1]
         \<and> getitem_col (st' ! r) ''OPS'' = Inr [Num 0.75, Num 0.875]
         \<and> getitem_col (st' ! r) ''Name'' = Inr [Str ''A'', Str ''B''])"
proof -
  have h1: "0 < length [season]" by simp
  have h2: "\<not> df_empty ([season] ! 0)"
    by (simp add: df_empty_def season_def)
  have h3: "wf_frame ([season] ! 0)"
    by (simp add: wf_frame_def season_def)
  have h4: "index_of (columns ([season] ! 0)) ''OBP'' = Some 3"
    by (simp add: season_def)
  have h5: "index_of (columns ([season] ! 0)) ''SLG'' = Some 4"
    by (simp add: season_def)
  have h6: "list_all (\<lambda>r. \<not> is_Str (snd r ! 3) \<and> \<not> is_Str (snd r ! 4)) (rows ([season] ! 0))"
    by (simp add: season_def)
  have f: "filter (\<lambda>c. c = ''OPS'' \<or> c \<in> set (columns ([season] ! 0))) cols =
      [''Name'', ''WAR'', ''OPS'', ''HR'', ''AVG'', ''Team'']"
    by (simp add: cols_def season_def)
  have g1: "getitem_col ([season] ! 0) ''OBP'' = Inr [Num 0.25, Num 0.375]"
    by (simp add: getitem_col_def season_def)
  have g2: "getitem_col ([season] ! 0) ''SLG'' = Inr [Num 0.5, Num 0.5]"
    by (simp add: getitem_col_def season_def)
  have g3: "getitem_col ([season] ! 0) ''Name'' = Inr [Str ''A'', Str ''B'']"
    by (simp add: getitem_col_def season_def)
  have g4: "add_series [Num 0.25, Num 0.375] [Num 0.5, Num 0.5] = Inr [Num 0.75, Num 0.875]"
    by (simp add: add_series_def)
  have g5: "map fst (rows ([season] ! 0)) = [0, 1]"
    by (simp add: season_def)
  note t = clean_data_columns [OF h1 h2 h3]
  from t h4 h5 h6 obtain st' r where c: "clean_data [season] 0 = Inr (st', r)"
    by blast
  note u = t [THEN conjunct1, rule_format, OF c]
  from u have "columns (st' ! r) =
      filter (\<lambda>c. c = ''OPS'' \<or> c \<in> set (columns ([season] ! 0))) cols"
    by blast
  then have 1: "columns (st' ! r) = [''Name'', ''WAR'', ''OPS'', ''HR'', ''AVG'', ''Team'']"
    by (simp only: f)
  from u have "map fst (rows (st' ! r)) = map fst (rows ([season] ! 0))"
    by blast
  then have 2: "map fst (rows (st' ! r)) = [0, 1]"
    by (simp only: g5)
  from u obtain obp slg where "getitem_col ([season] ! 0) ''OBP'' = Inr obp"
    "getitem_col ([season] ! 0) ''SLG'' = Inr slg" "getitem_col (st' ! r) ''OPS'' = add_series obp slg"
    by blast
  with g1 g2 g4 have 3: "getitem_col (st' ! r) ''OPS'' = Inr [Num 0.75, Num 0.875]"
    by simp
  from u have "\<forall>c \<in> set (columns (st' ! r)). c \<noteq> ''OPS'' \<longrightarrow>
      getitem_col (st' ! r) c = getitem_col ([season] ! 0) c"
    by blast
  moreover have "''Name'' \<in> set (columns (st' ! r))"
    using 1 by simp
  ultimately have "getitem_col (st' ! r) ''Name'' = getitem_col ([season] ! 0) ''Name''"
    by auto
  with g3 have 4: "getitem_col (st' ! r) ''Name'' = Inr [Str ''A'', Str ''B'']"
    by simp
  have "\<exists>st' r. clean_data [season] 0 = Inr (st', r)
         \<and> columns (st' ! r) = [''Name'', ''WAR'', ''OPS'', ''HR'', ''AVG'', ''Team'']
         \<and> map fst (rows (st' ! r)) = [0, 1]
         \<and> getitem_col (st' ! r) ''OPS'' = Inr [Num 0.75, Num 0.875]
         \<and> getitem_col (st' ! r) ''Name'' = Inr [Str ''A'', Str ''B'']"
    using c 1 2 3 4 by (intro exI [of _ st'] exI [of _ r]) simp
  then show ?thesis
    using h1 h2 h3 h4 h5 h6 by (intro conjI)
qed

end
